theory Spec2Isabelle
  imports Complex_Main "HOL-Library.Word" "HOL-Library.Multiset"
begin

section \<open>pacsize.py: sizes of the installed pacman packages\<close>

text \<open>
  The script reads \<^verbatim>\<open>/etc/pacman.conf\<close>, opens the package database through libalpm,
  lists the installed packages, sorts them by size and prints one line per package or
  the total, as byte counts or in binary units. This theory embeds the script function by
  function: Python's unbounded integers are \<^typ>\<open>int\<close>, a Python float is the rational
  number it holds, an exception is the \<open>Inl\<close> of a sum, and what is printed and which
  library calls are made is kept in an explicit state.
\<close>

subsection \<open>Python values\<close>

datatype py_error =
    OverflowError
  | AttributeError
  | ParsingError
  | NoSectionError
  | NoOptionError
  | InterpolationError

text \<open>\<^verbatim>\<open>str(n)\<close> of an integer: its decimal digits, with a minus sign below zero.\<close>

definition digit_char :: "int \<Rightarrow> char" where
  "digit_char d = ''0123456789'' ! nat d"

function digits :: "int \<Rightarrow> string" where
  "digits n = (if n < 10 then [digit_char n] else digits (n div 10) @ [digit_char (n mod 10)])"
  by pat_completeness auto
termination
  by (relation "measure nat") auto

declare digits.simps [simp del]

definition str :: "int \<Rightarrow> string" where
  "str i = (if i < 0 then ''-'' @ digits (- i) else digits i)"

text \<open>
  A float of the script is modelled by its exact value, a rational number. Three float
  operations occur in \<^verbatim>\<open>bytes_humanize\<close>.

  \<^item> \<^verbatim>\<open>size / 1024\<close> on an \<^verbatim>\<open>int\<close> (the first pass of the loop). Python's true division
    of integers returns the double nearest to the exact quotient, ties to even, and raises
    \<^verbatim>\<open>OverflowError\<close> when that double would be \<open>2 ^ 1024\<close> or more. Dividing by
    \<open>1024 = 2 ^ 10\<close> only moves the exponent, so the result is the double nearest to the
    integer itself (53 significant bits), divided by 1024.
  \<^item> \<^verbatim>\<open>size / 1024\<close> on a float: exact, again a move of the exponent (the values of the loop
    are zero or at least \<open>2 ^ -50\<close> in absolute value, far from the subnormal range).
  \<^item> \<^verbatim>\<open>size * 1024\<close> on a float: exact as long as the product is below \<open>2 ^ 1024\<close> in
    absolute value; from there on the product is an infinity, and no exception is raised.
    Only a negative size gets there: a size of zero or more is multiplied after it was
    divided at least as often.
  \<^item> \<^verbatim>\<open>f"{size:.02f}"\<close>: the exact decimal expansion of the double, rounded to two places,
    ties to even; \<^verbatim>\<open>inf\<close> and \<^verbatim>\<open>-inf\<close> for the infinities.
\<close>

datatype py_float = Finite rat | Infinity | Neg_infinity

function bit_length :: "int \<Rightarrow> nat" where
  "bit_length n = (if n \<le> 0 then 0 else Suc (bit_length (n div 2)))"
  by pat_completeness auto
termination
  by (relation "measure nat") auto

declare bit_length.simps [simp del]

text \<open>
  The double nearest to a non-negative integer, ties to even, with no bound on the
  exponent: below \<open>2 ^ 53\<close> the integer itself, above it the integer rounded to its 53
  leading bits. The bound on the exponent is checked where the division is made.
\<close>

definition nearest_double :: "int \<Rightarrow> int" where
  "nearest_double n =
     (if n < 2 ^ 53 then n
      else let s = bit_length n - 53; q = n div 2 ^ s; r = n mod 2 ^ s
           in (if 2 ^ (s - 1) < r \<or> (r = 2 ^ (s - 1) \<and> odd q) then q + 1 else q) * 2 ^ s)"

definition int_truediv_1024 :: "int \<Rightarrow> py_error + rat" where
  "int_truediv_1024 n =
     (let m = nearest_double \<bar>n\<bar>
      in if 2 ^ 1034 \<le> m then Inl OverflowError else Inr (of_int (sgn n * m) / 1024))"

definition round_half_even :: "rat \<Rightarrow> int" where
  "round_half_even y =
     (let f = \<lfloor>y\<rfloor>; d = y - of_int f
      in if 1 / 2 < d \<or> (d = 1 / 2 \<and> odd f) then f + 1 else f)"

definition format_02f :: "rat \<Rightarrow> string" where
  "format_02f x =
     (let m = round_half_even (\<bar>x\<bar> * 100)
      in (if x < 0 then ''-'' else '''') @ digits (m div 100) @ ''.'' @
         [digit_char (m mod 100 div 10), digit_char (m mod 10)])"

definition float_mul_1024 :: "rat \<Rightarrow> py_float" where
  "float_mul_1024 x =
     (if of_int (2 ^ 1024) \<le> x * 1024 then Infinity
      else if x * 1024 \<le> - of_int (2 ^ 1024) then Neg_infinity
      else Finite (x * 1024))"

fun format_float :: "py_float \<Rightarrow> string" where
  "format_float (Finite x) = format_02f x"
| "format_float Infinity = ''inf''"
| "format_float Neg_infinity = ''-inf''"

subsection \<open>bytes\_humanize\<close>

text \<open>
  \<^verbatim>\<open>
  def bytes_humanize(size) -> str:
      for prefix in ["B", "KiB", "MiB", "GiB", "TiB"]:
          size /= 1024
          if size < 1:
              break
      size *= 1024
      return f"{size:.02f}{prefix}"
  \<close>
  The list of prefixes is not empty, so the pass for \<open>B\<close> always runs; it is the one that
  divides an \<^verbatim>\<open>int\<close>. \<open>humanize_loop\<close> is the rest of the loop, on a float, with the
  prefixes still to come; it returns the loop's two variables.
\<close>

definition prefixes :: "string list" where
  "prefixes = [''B'', ''KiB'', ''MiB'', ''GiB'', ''TiB'']"

fun humanize_loop :: "string list \<Rightarrow> rat \<Rightarrow> string \<Rightarrow> rat \<times> string" where
  "humanize_loop [] sz prefix = (sz, prefix)"
| "humanize_loop (p # ps) sz prefix =
     (let sz' = sz / 1024
      in if sz' < 1 then (sz', p) else humanize_loop ps sz' p)"

definition bytes_humanize :: "int \<Rightarrow> py_error + string" where
  "bytes_humanize n =
     (case int_truediv_1024 n of
        Inl e \<Rightarrow> Inl e
      | Inr sz \<Rightarrow>
          (case (if sz < 1 then (sz, hd prefixes) else humanize_loop (tl prefixes) sz (hd prefixes)) of
             (sz', prefix) \<Rightarrow> Inr (format_float (float_mul_1024 sz') @ prefix)))"

text \<open>
  The rule of the specification, in its words: a value is shown in unit number \<open>k\<close> when
  dividing the scaled value by 1024 one more time would make it less than 1, formatted
  to two decimal places.
\<close>

definition shown_in_unit :: "int \<Rightarrow> nat \<Rightarrow> string \<Rightarrow> bool" where
  "shown_in_unit n k s \<longleftrightarrow>
     k < length prefixes \<and>
     s = format_02f (of_int n / 1024 ^ k) @ prefixes ! k \<and>
     of_int n / 1024 ^ k / 1024 < (1::rat)"

subsection \<open>Packages and the library\<close>

text \<open>
  \<^verbatim>\<open>
  @dataclass
  class Package:
      name: str
      size: int
  \<close>
  The field \<^verbatim>\<open>size\<close> is written \<open>size'\<close>, since \<open>size\<close> is a constant of HOL.
\<close>

record package =
  name :: string
  size' :: int

text \<open>
  libalpm is outside the script; its functions are parameters of the model. A C pointer is
  an address, \<open>NULL\<close> is 0. The list that \<^verbatim>\<open>alpm_db_search\<close> returns is taken as the finite
  sequence of its nodes, each with what \<^verbatim>\<open>alpm_pkg_get_name\<close> and \<^verbatim>\<open>alpm_pkg_get_isize\<close>
  return for its package; the script declares the latter as \<^verbatim>\<open>uint64_t\<close>. Package names
  are taken as valid UTF-8, so that \<^verbatim>\<open>name.decode()\<close> returns them unchanged.
\<close>

type_synonym ptr = nat

definition NULL :: ptr where
  "NULL = 0"

record alpm_pkg =
  pkg_name :: string
  pkg_isize :: "64 word"

record alpm_lib =
  alpm_initialize :: "string \<Rightarrow> string \<Rightarrow> ptr"
  alpm_get_localdb :: "ptr \<Rightarrow> ptr"
  alpm_db_search :: "ptr \<Rightarrow> string \<Rightarrow> alpm_pkg list"
  alpm_release :: "ptr \<Rightarrow> int"

text \<open>What a run has printed, one entry per line, and the calls it has made to libalpm.\<close>

datatype alpm_call =
    Initialize string string
  | Get_localdb ptr
  | Db_search ptr string
  | Release ptr

record world =
  stdout :: "string list"
  calls :: "alpm_call list"

definition print :: "string \<Rightarrow> world \<Rightarrow> world" where
  "print line w = w\<lparr>stdout := stdout w @ [line]\<rparr>"

definition call :: "alpm_call \<Rightarrow> world \<Rightarrow> world" where
  "call c w = w\<lparr>calls := calls w @ [c]\<rparr>"

fun is_initialize :: "alpm_call \<Rightarrow> bool" where
  "is_initialize (Initialize r d) = True"
| "is_initialize c = False"

fun is_release :: "alpm_call \<Rightarrow> bool" where
  "is_release (Release h) = True"
| "is_release c = False"

subsection \<open>class ALPM\<close>

text \<open>
  \<^verbatim>\<open>
  def __init__(self, root_dir: str, db_path: str):
      self.handle = lalpm.alpm_initialize(root_dir.encode(), db_path.encode(), ffi.NULL)
      self.local_db = lalpm.alpm_get_localdb(self.handle)
  \<close>
  The two paths come from \<^verbatim>\<open>config.get\<close>, which returns \<^verbatim>\<open>None\<close> for an option without a
  value; \<^verbatim>\<open>None.encode()\<close> raises \<^verbatim>\<open>AttributeError\<close> before any call to the library. The
  third argument, where libalpm would store its error code, is a null pointer, and the
  handle that comes back is stored as it is.
\<close>

record ALPM =
  handle :: ptr
  local_db :: ptr

definition ALPM_init ::
  "alpm_lib \<Rightarrow> string option \<Rightarrow> string option \<Rightarrow> world \<Rightarrow> (py_error + ALPM) \<times> world" where
  "ALPM_init lib root_dir db_path w =
     (case root_dir of
        None \<Rightarrow> (Inl AttributeError, w)
      | Some r \<Rightarrow>
          (case db_path of
             None \<Rightarrow> (Inl AttributeError, w)
           | Some d \<Rightarrow>
               (let h = alpm_initialize lib r d;
                    w1 = call (Initialize r d) w;
                    db = alpm_get_localdb lib h;
                    w2 = call (Get_localdb h) w1
                in (Inr \<lparr>handle = h, local_db = db\<rparr>, w2))))"

text \<open>
  \<^verbatim>\<open>
  def search_db(self, name):
      needle = ffi.new("alpm_list_t *", [ffi.new("char[]", name.encode()), ffi.NULL, ffi.NULL])
      res_array = []
      res = lalpm.alpm_db_search(self.local_db, needle)
      while res != ffi.NULL:
          pkg = ffi.cast("alpm_pkg_t *", res.data)
          name = ffi.string(lalpm.alpm_pkg_get_name(pkg))
          size = lalpm.alpm_pkg_get_isize(pkg)
          res_array.append(Package(name.decode(), size))
          res = ffi.cast("alpm_list_t *", res.next)
      return res_array
  \<close>
  The \<^verbatim>\<open>uint64_t\<close> becomes a Python integer between 0 and \<open>2 ^ 64 - 1\<close>.
\<close>

definition Package :: "alpm_pkg \<Rightarrow> package" where
  "Package pkg = \<lparr>name = pkg_name pkg, size' = uint (pkg_isize pkg)\<rparr>"

definition search_db :: "alpm_lib \<Rightarrow> ALPM \<Rightarrow> string \<Rightarrow> world \<Rightarrow> package list \<times> world" where
  "search_db lib self needle w =
     (map Package (alpm_db_search lib (local_db self) needle),
      call (Db_search (local_db self) needle) w)"

text \<open>
  \<^verbatim>\<open>
  def __del__(self):
      lalpm.alpm_release(self.handle)
  \<close>
\<close>

definition ALPM_del :: "alpm_lib \<Rightarrow> ALPM \<Rightarrow> world \<Rightarrow> world" where
  "ALPM_del lib self w = call (Release (handle self)) w"

subsection \<open>read\_pacman\_config\<close>

text \<open>
  \<^verbatim>\<open>
  def read_pacman_config():
      config = configparser.ConfigParser(allow_no_value=True)
      config.read_dict({'options': {'RootDir': '/', 'DBPath': '/var/lib/pacman',
                                    'CacheDir': '/var/cache/pacman/pkg'}})
      config.read("/etc/pacman.conf")
      return config
  \<close>
  The parser is Python's; the model takes what \<^verbatim>\<open>config.read\<close> meets at the file as a
  parameter. \<open>Unreadable\<close>: the file cannot be opened (it is missing, or \<^verbatim>\<open>open\<close> raises
  another \<^verbatim>\<open>OSError\<close>), and \<^verbatim>\<open>read\<close> skips it silently. \<open>Malformed\<close>: the parser raises one
  of its errors. \<open>Parsed\<close>: the sections of the file in order, each with its options in
  order, the option names as \<^verbatim>\<open>optionxform\<close> leaves them (lower case); an option without
  a value has \<open>None\<close>.

  A parser holds its sections and, apart from them, the options of the section
  \<^verbatim>\<open>DEFAULT\<close>. Reading into a parser that already has a section adds to that section and
  overwrites the options given again.
\<close>

datatype read_outcome =
    Unreadable
  | Malformed
  | Parsed "(string \<times> (string \<times> string option) list) list"

type_synonym options = "string \<rightharpoonup> string option"

record config =
  sections :: "string \<rightharpoonup> options"
  defaults :: options

definition ConfigParser :: config where
  "ConfigParser = \<lparr>sections = Map.empty, defaults = Map.empty\<rparr>"

text \<open>\<^verbatim>\<open>optionxform\<close> is \<^verbatim>\<open>str.lower\<close>; the option names of the script are ASCII.\<close>

definition lower_char :: "char \<Rightarrow> char" where
  "lower_char c =
     (let k = of_char c :: nat in if 65 \<le> k \<and> k \<le> 90 then char_of (k + 32) else c)"

definition optionxform :: "string \<Rightarrow> string" where
  "optionxform s = map lower_char s"

fun set_options :: "(string \<times> string option) list \<Rightarrow> options \<Rightarrow> options" where
  "set_options [] opts = opts"
| "set_options ((k, v) # kvs) opts = set_options kvs (opts(k \<mapsto> v))"

fun read_section :: "string \<times> (string \<times> string option) list \<Rightarrow> config \<Rightarrow> config" where
  "read_section (sectname, kvs) cfg =
     (if sectname = ''DEFAULT'' then cfg\<lparr>defaults := set_options kvs (defaults cfg)\<rparr>
      else cfg\<lparr>sections := (sections cfg)(sectname \<mapsto>
             set_options kvs (case sections cfg sectname of None \<Rightarrow> Map.empty | Some opts \<Rightarrow> opts))\<rparr>)"

definition read_dict :: "(string \<times> (string \<times> string) list) list \<Rightarrow> config \<Rightarrow> config" where
  "read_dict dictionary cfg =
     fold (\<lambda>(sectname, kvs). read_section (sectname, map (\<lambda>(k, v). (optionxform k, Some v)) kvs))
       dictionary cfg"

definition config_read :: "read_outcome \<Rightarrow> config \<Rightarrow> py_error + config" where
  "config_read conf_file cfg =
     (case conf_file of
        Unreadable \<Rightarrow> Inr cfg
      | Malformed \<Rightarrow> Inl ParsingError
      | Parsed sects \<Rightarrow> Inr (fold read_section sects cfg))"

definition read_pacman_config :: "read_outcome \<Rightarrow> py_error + config" where
  "read_pacman_config conf_file =
     config_read conf_file
       (read_dict
          [(''options'',
            [(''RootDir'', ''/''),
             (''DBPath'', ''/var/lib/pacman''),
             (''CacheDir'', ''/var/cache/pacman/pkg'')])]
          ConfigParser)"

text \<open>
  \<^verbatim>\<open>config.get(section, option)\<close>: the option is looked up in the section, then among the
  options of \<^verbatim>\<open>DEFAULT\<close>. A value without \<^verbatim>\<open>%\<close> is returned as it is, and so is \<^verbatim>\<open>None\<close>; a
  value with \<^verbatim>\<open>%\<close> goes through the parser's interpolation, the parameter \<open>interpolate\<close>.
\<close>

definition config_get ::
  "(string \<Rightarrow> py_error + string) \<Rightarrow> config \<Rightarrow> string \<Rightarrow> string \<Rightarrow> py_error + string option" where
  "config_get interpolate cfg sectname option =
     (if sectname \<noteq> ''DEFAULT'' \<and> sections cfg sectname = None then Inl NoSectionError
      else
        (case (defaults cfg ++ (case sections cfg sectname of None \<Rightarrow> Map.empty | Some opts \<Rightarrow> opts))
                (optionxform option) of
           None \<Rightarrow> Inl NoOptionError
         | Some None \<Rightarrow> Inr None
         | Some (Some v) \<Rightarrow>
             (if CHR ''%'' \<in> set v
              then (case interpolate v of Inl e \<Rightarrow> Inl e | Inr v' \<Rightarrow> Inr (Some v'))
              else Inr (Some v))))"

text \<open>Whether the file gives a value to an option of a section.\<close>

definition file_sets :: "(string \<times> (string \<times> string option) list) list \<Rightarrow> string \<Rightarrow> string \<Rightarrow> bool" where
  "file_sets sects sectname option =
     list_ex (\<lambda>(s, kvs). s = sectname \<and> list_ex (\<lambda>(k, v). k = option) kvs) sects"

subsection \<open>main\<close>

text \<open>
  \<^verbatim>\<open>
  def main(human_readable, show_total):
      config = read_pacman_config()
      root_dir, db_path = \
          config.get('options', 'RootDir'), \
          config.get('options', 'DBPath'),
      alpm = ALPM(root_dir, db_path)
      packages = alpm.search_db(".*")
      packages.sort(key=lambda p: p.size)
      if show_total:
          s = sum(map(lambda p: p.size, packages))
          if human_readable:
              show = bytes_humanize(s)
          else:
              show = str(s)
          print(show)
      else:
          for p in packages:
              if human_readable:
                  display_size = bytes_humanize(p.size)
              else:
                  display_size = str(p.size)
              print(f"{p.name} {display_size}")
  \<close>
  \<^verbatim>\<open>list.sort\<close> with a key is a stable sort; a stable sort by a key has one possible
  result, the one of \<^const>\<open>sort_key\<close>.
\<close>

definition sort_packages :: "package list \<Rightarrow> package list" where
  "sort_packages packages = sort_key size' packages"

fun print_packages :: "bool \<Rightarrow> package list \<Rightarrow> world \<Rightarrow> world \<times> py_error option" where
  "print_packages human_readable [] w = (w, None)"
| "print_packages human_readable (p # ps) w =
     (case (if human_readable then bytes_humanize (size' p) else Inr (str (size' p))) of
        Inl e \<Rightarrow> (w, Some e)
      | Inr display_size \<Rightarrow>
          print_packages human_readable ps (print (name p @ '' '' @ display_size) w))"

text \<open>The lines of \<^verbatim>\<open>main\<close> from the sort on: what is done with the packages.\<close>

definition sort_and_print :: "bool \<Rightarrow> bool \<Rightarrow> package list \<Rightarrow> world \<Rightarrow> world \<times> py_error option" where
  "sort_and_print human_readable show_total packages0 w =
     (let packages = sort_packages packages0
      in if show_total then
           (let s = sum_list (map size' packages)
            in case (if human_readable then bytes_humanize s else Inr (str s)) of
                 Inl e \<Rightarrow> (w, Some e)
               | Inr show \<Rightarrow> (print show w, None))
         else print_packages human_readable packages w)"

text \<open>
  A run of the script starts with nothing printed and no call made, and ends when the
  process exits; the model gives what was printed and called by then, and the exception
  that left \<^verbatim>\<open>main\<close>, if any. The session object is referred to by the local \<^verbatim>\<open>alpm\<close> of
  \<^verbatim>\<open>main\<close> only. When \<^verbatim>\<open>main\<close> returns, the object loses its last reference and CPython runs
  \<^verbatim>\<open>__del__\<close> at once. When an exception leaves \<^verbatim>\<open>main\<close> after the object was made, the
  traceback keeps the frame of \<^verbatim>\<open>main\<close> and the object alive while the interpreter prints
  it; the interpreter's shutdown then drops the traceback, and \<^verbatim>\<open>__del__\<close> runs before the
  process exits, the module's globals still in place. When \<^verbatim>\<open>__init__\<close> itself raises, the
  object has no handle, and its \<^verbatim>\<open>__del__\<close> fails on \<^verbatim>\<open>self.handle\<close> before any call to the
  library (an exception in \<^verbatim>\<open>__del__\<close> is reported and ignored).
\<close>

definition main ::
  "alpm_lib \<Rightarrow> read_outcome \<Rightarrow> (string \<Rightarrow> py_error + string) \<Rightarrow> bool \<Rightarrow> bool \<Rightarrow> world \<times> py_error option" where
  "main lib conf_file interpolate human_readable show_total =
     (let w0 = \<lparr>stdout = [], calls = []\<rparr>
      in case read_pacman_config conf_file of
           Inl e \<Rightarrow> (w0, Some e)
         | Inr cfg \<Rightarrow>
      (case config_get interpolate cfg ''options'' ''RootDir'' of
           Inl e \<Rightarrow> (w0, Some e)
         | Inr root_dir \<Rightarrow>
      (case config_get interpolate cfg ''options'' ''DBPath'' of
           Inl e \<Rightarrow> (w0, Some e)
         | Inr db_path \<Rightarrow>
      (case ALPM_init lib root_dir db_path w0 of
           (Inl e, w1) \<Rightarrow> (w1, Some e)
         | (Inr alpm, w1) \<Rightarrow>
      (case search_db lib alpm ''.*'' w1 of
           (packages, w2) \<Rightarrow>
      (case sort_and_print human_readable show_total packages w2 of
           (w3, Some e) \<Rightarrow> (ALPM_del lib alpm w3, Some e)
         | (w3, None) \<Rightarrow> (ALPM_del lib alpm w3, None)))))))"


text \<open>
  Three libraries to run the model on. \<open>small_lib\<close> opens any database and lists three
  packages. \<open>failing_lib\<close> behaves as libalpm does when the paths are wrong:
  \<^verbatim>\<open>alpm_initialize\<close> returns \<open>NULL\<close>, and the other functions, given \<open>NULL\<close>, return
  \<open>NULL\<close>, the empty list and -1. \<open>huge_lib\<close> lists so many packages of \<open>2 ^ 63\<close> bytes
  that their sum is \<open>2 ^ 1034\<close>: the formatter's \<^verbatim>\<open>OverflowError\<close> is the one exception of
  the model that can leave \<^verbatim>\<open>main\<close> after the session is made.
\<close>

definition small_lib :: alpm_lib where
  "small_lib =
     \<lparr>alpm_initialize = (\<lambda>root dbpath. 4096),
      alpm_get_localdb = (\<lambda>h. if h = NULL then NULL else h + 64),
      alpm_db_search = (\<lambda>db needle.
         if db = NULL then []
         else [\<lparr>pkg_name = ''glibc'', pkg_isize = 49283072\<rparr>,
               \<lparr>pkg_name = ''zlib'', pkg_isize = 1536\<rparr>,
               \<lparr>pkg_name = ''bash'', pkg_isize = 9876543\<rparr>]),
      alpm_release = (\<lambda>h. if h = NULL then - 1 else 0)\<rparr>"


definition huge_count :: nat where
  "huge_count = 2 ^ 971"

definition huge_lib :: alpm_lib where
  "huge_lib =
     \<lparr>alpm_initialize = (\<lambda>root dbpath. 4096),
      alpm_get_localdb = (\<lambda>h. if h = NULL then NULL else h + 64),
      alpm_db_search = (\<lambda>db needle.
         if db = NULL then []
         else replicate huge_count \<lparr>pkg_name = ''big'', pkg_isize = 9223372036854775808\<rparr>),
      alpm_release = (\<lambda>h. if h = NULL then - 1 else 0)\<rparr>"

text \<open>The options that \<^verbatim>\<open>read_dict\<close> stores in the section \<^verbatim>\<open>options\<close>.\<close>

definition default_options :: options where
  "default_options =
     [''rootdir'' \<mapsto> Some ''/'', ''dbpath'' \<mapsto> Some ''/var/lib/pacman'',
      ''cachedir'' \<mapsto> Some ''/var/cache/pacman/pkg'']"


definition plain_conf :: "(string \<times> (string \<times> string option) list) list" where
  "plain_conf =
     [(''options'', [(''holdpkg'', Some ''pacman glibc''), (''checkspace'', None)]),
      (''core'', [(''include'', Some ''/etc/pacman.d/mirrorlist'')])]"

section \<open>The arithmetic of the formatter\<close>

lemma bit_length_bounds: "0 < n \<Longrightarrow> 2 ^ (bit_length n - 1) \<le> n \<and> n < 2 ^ bit_length n"
proof (induction n rule: bit_length.induct)
  case (1 n)
  show ?case
  proof (cases "n div 2 \<le> 0")
    case True
    with "1.prems" have "n = 1" by presburger
    then show ?thesis by (simp add: bit_length.simps [of 1] bit_length.simps [of 0])
  next
    case False
    then have pos: "0 < n div 2" by simp
    have ih: "2 ^ (bit_length (n div 2) - 1) \<le> n div 2 \<and> n div 2 < 2 ^ bit_length (n div 2)"
      using "1.IH" "1.prems" pos by simp
    have bl: "bit_length n = Suc (bit_length (n div 2))"
      using "1.prems" by (simp add: bit_length.simps [of n])
    have blpos: "0 < bit_length (n div 2)"
      using pos by (simp add: bit_length.simps [of "n div 2"])
    then obtain k where k: "bit_length (n div 2) = Suc k"
      by (cases "bit_length (n div 2)") auto
    from ih k have "2 * 2 ^ k \<le> n" "n < 2 * 2 ^ Suc k"
      by auto
    then show ?thesis by (simp add: bl k)
  qed
qed

lemma nearest_double_small: "n < 2 ^ 53 \<Longrightarrow> nearest_double n = n"
  by (simp add: nearest_double_def)

lemma pow2_less_D: "(2::int) ^ a < 2 ^ b \<Longrightarrow> a < b"
  by (simp add: power_strict_increasing_iff)

lemma le_div_int: "a * b \<le> (n::int) \<Longrightarrow> 0 < b \<Longrightarrow> a \<le> n div b"
  using zdiv_mono1 [of "a * b" n b] by simp

lemma div_less_int:
  assumes "n < a * b" "0 < b"
  shows "n div b < (a::int)"
proof (rule ccontr)
  assume "\<not> n div b < a"
  then have "a * b \<le> n div b * b" using assms(2) by (intro mult_right_mono) auto
  also have "n div b * b = n - n mod b" by (simp add: minus_mod_eq_div_mult)
  also have "\<dots> \<le> n" using assms(2) by simp
  finally show False using assms(1) by simp
qed

text \<open>Above \<open>2 ^ 53\<close> the integer has \<open>53 + s\<close> bits and is rounded to a multiple of \<open>2 ^ s\<close>.\<close>

lemma nearest_double_large:
  assumes "2 ^ 53 \<le> n"
  obtains s q where "0 < s" "bit_length n = 53 + s" "2 ^ 52 \<le> q" "q \<le> 2 ^ 53"
    "nearest_double n = q * 2 ^ s"
proof -
  from assms have pos: "0 < n" by (simp add: less_le_trans [of 0 "2 ^ 53" n])
  from bit_length_bounds [OF pos]
  have lo: "2 ^ (bit_length n - 1) \<le> n" and hi: "n < 2 ^ bit_length n" by simp_all
  have "(2::int) ^ 53 < 2 ^ bit_length n" using assms hi by simp
  then have "53 < bit_length n" by (rule pow2_less_D)
  then obtain s where s: "bit_length n = 53 + s" "0 < s"
    by (metis add.commute less_imp_add_positive)
  define q where "q = n div 2 ^ s"
  define r where "r = n mod 2 ^ s"
  have "(2::int) ^ 52 * 2 ^ s \<le> n" using lo s by (simp add: power_add)
  then have qlo: "2 ^ 52 \<le> q"
    unfolding q_def by (intro le_div_int) auto
  have "n < 2 ^ 53 * 2 ^ s" using hi s by (simp add: power_add)
  then have qhi: "q < 2 ^ 53"
    unfolding q_def by (intro div_less_int) auto
  define q' where "q' = (if 2 ^ (s - 1) < r \<or> (r = 2 ^ (s - 1) \<and> odd q) then q + 1 else q)"
  have nd: "nearest_double n = q' * 2 ^ s"
    using assms s by (simp add: nearest_double_def Let_def q_def r_def q'_def)
  have "2 ^ 52 \<le> q'" "q' \<le> 2 ^ 53" using qlo qhi by (auto simp: q'_def)
  with s nd show thesis using that by blast
qed

lemma nearest_double_ge: "2 ^ 53 \<le> n \<Longrightarrow> 2 ^ 53 \<le> nearest_double n"
proof -
  assume "2 ^ 53 \<le> n"
  then obtain s q where *: "0 < s" "2 ^ 52 \<le> q" "nearest_double n = q * 2 ^ s"
    by (rule nearest_double_large)
  from \<open>0 < s\<close> have "(2::int) ^ 1 \<le> 2 ^ s" by (intro power_increasing) auto
  then have "(2::int) ^ 52 * 2 \<le> q * 2 ^ s" using * by (intro mult_mono) auto
  then show ?thesis using * by simp
qed

lemma nearest_double_le:
  assumes "n < 2 ^ k" "53 \<le> k"
  shows "nearest_double n \<le> 2 ^ k"
proof (cases "n < 2 ^ 53")
  case True
  then show ?thesis using assms by (simp add: nearest_double_small)
next
  case False
  then have big: "2 ^ 53 \<le> n" by simp
  then obtain s q where *: "bit_length n = 53 + s" "q \<le> 2 ^ 53" "nearest_double n = q * 2 ^ s"
    by (rule nearest_double_large)
  from big have pos: "0 < n" by (simp add: less_le_trans [of 0 "2 ^ 53" n])
  from bit_length_bounds [OF pos] have "2 ^ (bit_length n - 1) \<le> n" by (rule conjunct1)
  from this assms(1) have "(2::int) ^ (bit_length n - 1) < 2 ^ k" by (rule le_less_trans)
  then have "bit_length n - 1 < k" by (rule pow2_less_D)
  then have "53 + s \<le> k" using * by simp
  then have "(2::int) ^ (53 + s) \<le> 2 ^ k" by (intro power_increasing) auto
  then have b: "(2::int) ^ 53 * 2 ^ s \<le> 2 ^ k" by (simp only: power_add)
  have a: "q * 2 ^ s \<le> 2 ^ 53 * 2 ^ s" using * by (intro mult_right_mono) auto
  from a b have "q * 2 ^ s \<le> 2 ^ k" by (rule order_trans)
  then show ?thesis by (simp only: *)
qed

text \<open>The rounding moves an integer by at most half a unit of its last kept bit.\<close>

lemma nearest_double_error:
  assumes "0 \<le> n"
  shows "\<bar>nearest_double n - n\<bar> * 2 ^ 53 \<le> n"
proof (cases "n < 2 ^ 53")
  case True
  then show ?thesis using assms by (simp add: nearest_double_small)
next
  case False
  then have big: "2 ^ 53 \<le> n" by simp
  then have pos: "0 < n" by (simp add: less_le_trans [of 0 "2 ^ 53" n])
  from bit_length_bounds [OF pos]
  have lo: "2 ^ (bit_length n - 1) \<le> n" and hi: "n < 2 ^ bit_length n" by simp_all
  have "(2::int) ^ 53 < 2 ^ bit_length n" using big hi by simp
  then have "53 < bit_length n" by (rule pow2_less_D)
  then have "54 \<le> bit_length n" by simp
  then obtain t where t: "bit_length n = 54 + t"
    using le_Suc_ex by blast
  define h :: int where "h = 2 ^ t"
  define q where "q = n div (2 * h)"
  define r where "r = n mod (2 * h)"
  have hpos: "0 < h" by (simp add: h_def)
  have n: "n = q * (2 * h) + r" unfolding q_def r_def by (rule div_mult_mod_eq [symmetric])
  have r: "0 \<le> r" "r < 2 * h" using hpos by (simp_all add: r_def)
  define d where "d = nearest_double n"
  have nd: "d = (if h < r \<or> (r = h \<and> odd q) then q + 1 else q) * (2 * h)"
    unfolding d_def using False t by (simp add: nearest_double_def Let_def q_def r_def h_def)
  have "\<bar>d - n\<bar> \<le> h"
  proof (cases "h < r \<or> (r = h \<and> odd q)")
    case True
    then have "d - n = 2 * h - r" by (subst n) (auto simp: nd algebra_simps)
    moreover from True have "h \<le> r" by auto
    ultimately show ?thesis using r by simp
  next
    case False
    then have "d - n = - r" by (subst n) (auto simp: nd algebra_simps)
    moreover from False have "r \<le> h" by auto
    ultimately show ?thesis using r by simp
  qed
  then have "\<bar>d - n\<bar> * 2 ^ 53 \<le> h * 2 ^ 53" by simp
  also have "h * 2 ^ 53 = 2 ^ (bit_length n - 1)" by (simp add: h_def t power_add)
  finally show ?thesis using lo unfolding d_def by simp
qed

section \<open>Humanized sizes\<close>

text \<open>The text of a float always ends with a point and two decimal digits.\<close>

lemma format_02f_two_places:
  "\<exists>ds a b. format_02f x = ds @ ''.'' @ [a, b] \<and>
     a \<in> set ''0123456789'' \<and> b \<in> set ''0123456789''"
proof -
  define m where "m = round_half_even (\<bar>x\<bar> * 100)"
  have d: "digit_char k \<in> set ''0123456789''" if "0 \<le> k" "k < 10" for k
    unfolding digit_char_def using that by (intro nth_mem) auto
  have "digit_char (m mod 100 div 10) \<in> set ''0123456789''"
    by (rule d) (simp_all add: pos_imp_zdiv_nonneg_iff div_less_int)
  moreover have "digit_char (m mod 10) \<in> set ''0123456789''"
    by (rule d) simp_all
  moreover have "format_02f x =
      ((if x < 0 then ''-'' else []) @ digits (m div 100)) @ ''.'' @
      [digit_char (m mod 100 div 10), digit_char (m mod 10)]"
    by (simp add: format_02f_def m_def Let_def)
  ultimately show ?thesis by blast
qed

lemma int_truediv_nonneg:
  "0 \<le> n \<Longrightarrow> int_truediv_1024 n =
     (if 2 ^ 1034 \<le> nearest_double n then Inl OverflowError
      else Inr (of_int (nearest_double n) / 1024))"
  by (cases "n = 0") (simp_all add: int_truediv_1024_def Let_def nearest_double_small)

text \<open>
  The loop divides a size of zero or more at least once, so the product that follows it
  is below \<open>2 ^ 1024\<close> whenever the first quotient is.
\<close>

lemma humanize_loop_bounds:
  "0 \<le> sz \<Longrightarrow> 0 \<le> fst (humanize_loop ps sz p) \<and> fst (humanize_loop ps sz p) \<le> sz"
proof (induction ps arbitrary: sz p)
  case Nil
  then show ?case by simp
next
  case (Cons q ps)
  from Cons.prems have d: "0 \<le> sz / 1024" "sz / 1024 \<le> sz" by simp_all
  from Cons.IH [OF d(1), of q] d show ?case by (auto simp: Let_def)
qed

lemma humanize_loop_divides:
  assumes "0 \<le> sz"
  shows "0 \<le> fst (humanize_loop (q # ps) sz p) \<and> fst (humanize_loop (q # ps) sz p) * 1024 \<le> sz"
proof -
  from assms have d: "0 \<le> sz / 1024" by simp
  from humanize_loop_bounds [OF d, of ps q] d show ?thesis by (auto simp: Let_def)
qed

lemma float_mul_finite:
  "0 \<le> x \<Longrightarrow> x * 1024 < 2 ^ 1024 \<Longrightarrow> float_mul_1024 x = Finite (x * 1024)"
  by (simp add: float_mul_1024_def)

lemma bytes_humanize_finite:
  assumes "int_truediv_1024 n = Inr (of_int m / 1024)" "0 \<le> m" "m < 2 ^ 1034"
  shows "bytes_humanize n =
     (case (if of_int m / 1024 < (1::rat) then (of_int m / 1024, hd prefixes)
            else humanize_loop (tl prefixes) (of_int m / 1024) (hd prefixes)) of
        (sz', prefix) \<Rightarrow> Inr (format_02f (sz' * 1024) @ prefix))"
proof -
  let ?sz = "of_int m / 1024 :: rat"
  let ?r = "if ?sz < 1 then (?sz, hd prefixes) else humanize_loop (tl prefixes) ?sz (hd prefixes)"
  have nn: "0 \<le> ?sz" using assms(2) by simp
  have "of_int m < (of_int (2 ^ 1034) :: rat)" using assms(3) by (simp only: of_int_less_iff)
  then have "?sz * 1024 < 2 ^ 1034" by simp
  then have lt: "?sz < 2 ^ 1024" by simp
  obtain a b where r: "?r = (a, b)" by (cases ?r)
  have "0 \<le> fst ?r \<and> fst ?r * 1024 < 2 ^ 1024"
  proof (cases "?sz < 1")
    case True
    then have "?sz * 1024 < 1 * 1024" by (intro mult_strict_right_mono) auto
    then have "?sz * 1024 < 2 ^ 1024" by simp
    with True nn show ?thesis by simp
  next
    case False
    from humanize_loop_divides [OF nn, of "''KiB''" "[''MiB'', ''GiB'', ''TiB'']" "''B''"]
    have "0 \<le> fst (humanize_loop (tl prefixes) ?sz (hd prefixes))"
      "fst (humanize_loop (tl prefixes) ?sz (hd prefixes)) * 1024 \<le> ?sz"
      by (simp_all add: prefixes_def)
    with lt False show ?thesis by simp
  qed
  then have "0 \<le> a" "a * 1024 < 2 ^ 1024" unfolding r by simp_all
  then have fm: "float_mul_1024 a = Finite (a * 1024)" by (rule float_mul_finite)
  show ?thesis
    unfolding bytes_humanize_def assms(1) sum.case r prod.case fm format_float.simps ..
qed

lemma humanize_B:
  assumes "int_truediv_1024 n = Inr (of_int m / 1024)" "0 \<le> m" "m < 1024"
  shows "bytes_humanize n = Inr (format_02f (of_int m) @ ''B'')"
proof -
  from assms have "m < 2 ^ 1034" by simp
  from bytes_humanize_finite [OF assms(1,2) this] assms(3) show ?thesis
    by (simp add: prefixes_def)
qed

lemma humanize_KiB:
  assumes "int_truediv_1024 n = Inr (of_int m / 1024)" "1024 \<le> m" "m < 1024 ^ 2"
  shows "bytes_humanize n = Inr (format_02f (of_int m / 1024) @ ''KiB'')"
proof -
  from assms have "0 \<le> m" "m < 2 ^ 1034" by simp_all
  from bytes_humanize_finite [OF assms(1) this] assms(2,3) show ?thesis
    by (simp add: prefixes_def)
qed

lemma humanize_MiB:
  assumes "int_truediv_1024 n = Inr (of_int m / 1024)" "1024 ^ 2 \<le> m" "m < 1024 ^ 3"
  shows "bytes_humanize n = Inr (format_02f (of_int m / 1024 ^ 2) @ ''MiB'')"
proof -
  from assms have "0 \<le> m" "m < 2 ^ 1034" by simp_all
  from bytes_humanize_finite [OF assms(1) this] assms(2,3) show ?thesis
    by (simp add: prefixes_def)
qed

lemma humanize_GiB:
  assumes "int_truediv_1024 n = Inr (of_int m / 1024)" "1024 ^ 3 \<le> m" "m < 1024 ^ 4"
  shows "bytes_humanize n = Inr (format_02f (of_int m / 1024 ^ 3) @ ''GiB'')"
proof -
  from assms have "0 \<le> m" "m < 2 ^ 1034" by simp_all
  from bytes_humanize_finite [OF assms(1) this] assms(2,3) show ?thesis
    by (simp add: prefixes_def)
qed

lemma humanize_TiB:
  assumes "int_truediv_1024 n = Inr (of_int m / 1024)" "1024 ^ 4 \<le> m" "m < 2 ^ 1034"
  shows "bytes_humanize n = Inr (format_02f (of_int m / 1024 ^ 4) @ ''TiB'')"
proof -
  from assms have "0 \<le> m" by simp
  from bytes_humanize_finite [OF assms(1) this assms(3)] assms(2) show ?thesis
    by (simp add: prefixes_def Let_def)
qed

text \<open>
  Below zero the loop stops at its first pass, and the product is the size again, or
  minus infinity.
\<close>

lemma bytes_humanize_negative:
  "bytes_humanize (- 5) = Inr ''-5.00B'' \<and> bytes_humanize (- (2 ^ 1024)) = Inr ''-infB''"
  by code_simp

lemma int_truediv_exact:
  "0 \<le> n \<Longrightarrow> n < 2 ^ 53 \<Longrightarrow> int_truediv_1024 n = Inr (of_int n / 1024)"
  by (simp add: int_truediv_nonneg nearest_double_small)

lemma humanize_below_PiB:
  assumes "0 \<le> n" "n < 1024 ^ 5"
  shows "\<exists>k s. bytes_humanize n = Inr s \<and> shown_in_unit n k s \<and> (k = 0 \<or> 1024 ^ k \<le> n)"
proof -
  from assms have d: "int_truediv_1024 n = Inr (of_int n / 1024)"
    by (intro int_truediv_exact) auto
  consider "n < 1024" | "1024 \<le> n" "n < 1024 ^ 2" | "1024 ^ 2 \<le> n" "n < 1024 ^ 3"
    | "1024 ^ 3 \<le> n" "n < 1024 ^ 4" | "1024 ^ 4 \<le> n"
    by linarith
  then show ?thesis
  proof cases
    case 1
    with humanize_B [OF d assms(1)] have "bytes_humanize n = Inr (format_02f (of_int n) @ ''B'')" by simp
    moreover have "shown_in_unit n 0 (format_02f (of_int n) @ ''B'')"
      using 1 by (simp add: shown_in_unit_def prefixes_def)
    ultimately show ?thesis by blast
  next
    case 2
    with humanize_KiB [OF d] have "bytes_humanize n = Inr (format_02f (of_int n / 1024) @ ''KiB'')" by simp
    moreover have "shown_in_unit n 1 (format_02f (of_int n / 1024) @ ''KiB'')"
      using 2 by (simp add: shown_in_unit_def prefixes_def)
    moreover have "1024 ^ 1 \<le> n" using 2 by simp
    ultimately show ?thesis by blast
  next
    case 3
    with humanize_MiB [OF d] have "bytes_humanize n = Inr (format_02f (of_int n / 1024 ^ 2) @ ''MiB'')" by simp
    moreover have "shown_in_unit n 2 (format_02f (of_int n / 1024 ^ 2) @ ''MiB'')"
      using 3 by (simp add: shown_in_unit_def prefixes_def)
    ultimately show ?thesis using 3 by blast
  next
    case 4
    with humanize_GiB [OF d] have "bytes_humanize n = Inr (format_02f (of_int n / 1024 ^ 3) @ ''GiB'')" by simp
    moreover have "shown_in_unit n 3 (format_02f (of_int n / 1024 ^ 3) @ ''GiB'')"
      using 4 by (simp add: shown_in_unit_def prefixes_def)
    ultimately show ?thesis using 4 by blast
  next
    case 5
    from assms have "n < 2 ^ 1034" by simp
    with 5 humanize_TiB [OF d] have "bytes_humanize n = Inr (format_02f (of_int n / 1024 ^ 4) @ ''TiB'')" by simp
    moreover have "shown_in_unit n 4 (format_02f (of_int n / 1024 ^ 4) @ ''TiB'')"
      using 5 assms by (simp add: shown_in_unit_def prefixes_def)
    ultimately show ?thesis using 5 by blast
  qed
qed

text \<open>
  Claim C1, for byte counts below \<open>1024 ^ 5\<close>. For every integer \<open>n\<close> with
  \<open>0 \<le> n < 1024 ^ 5\<close> the formatter returns a string, and there is a unit \<open>k\<close> among
  B, KiB, MiB, GiB, TiB such that the string is \<open>n / 1024 ^ k\<close> to two decimal places
  followed by the unit, dividing \<open>n / 1024 ^ k\<close> by 1024 once more gives less than 1, and
  the unit is the first such one (\<open>k = 0\<close> or \<open>1024 ^ k \<le> n\<close>). In particular 0 gives
  \<open>0.00B\<close>, 1023 gives \<open>1023.00B\<close>, 1024 gives \<open>1.00KiB\<close>, \<open>1024 * 1024\<close> gives \<open>1.00MiB\<close>
  and 1536 gives \<open>1.50KiB\<close>.
\<close>

theorem bytes_humanize_unit:
  "(\<forall>n. 0 \<le> n \<and> n < 1024 ^ 5 \<longrightarrow>
      (\<exists>k s. bytes_humanize n = Inr s \<and> shown_in_unit n k s \<and> (k = 0 \<or> 1024 ^ k \<le> n)))
   \<and> bytes_humanize 0 = Inr ''0.00B''
   \<and> bytes_humanize 1023 = Inr ''1023.00B''
   \<and> bytes_humanize 1024 = Inr ''1.00KiB''
   \<and> bytes_humanize (1024 * 1024) = Inr ''1.00MiB''
   \<and> bytes_humanize 1536 = Inr ''1.50KiB''"
proof (intro conjI allI impI)
  fix n :: int
  assume "0 \<le> n \<and> n < 1024 ^ 5"
  then show "\<exists>k s. bytes_humanize n = Inr s \<and> shown_in_unit n k s \<and> (k = 0 \<or> 1024 ^ k \<le> n)"
    by (intro humanize_below_PiB) auto
next
  show "bytes_humanize 0 = Inr ''0.00B''" by code_simp
  show "bytes_humanize 1023 = Inr ''1023.00B''" by code_simp
  show "bytes_humanize 1024 = Inr ''1.00KiB''" by code_simp
  show "bytes_humanize (1024 * 1024) = Inr ''1.00MiB''" by code_simp
  show "bytes_humanize 1536 = Inr ''1.50KiB''" by code_simp
qed

text \<open>The rule at 1536 bytes.\<close>

theorem bytes_humanize_unit_witness:
  "(0::int) \<le> 1536 \<and> (1536::int) < 1024 ^ 5 \<and>
   (\<exists>k s. bytes_humanize 1536 = Inr s \<and> shown_in_unit 1536 k s \<and> (k = 0 \<or> 1024 ^ k \<le> (1536::int)))"
proof -
  have h: "(0::int) \<le> 1536 \<and> (1536::int) < 1024 ^ 5" by simp
  from bytes_humanize_unit have "\<forall>n. 0 \<le> n \<and> n < 1024 ^ 5 \<longrightarrow>
      (\<exists>k s. bytes_humanize n = Inr s \<and> shown_in_unit n k s \<and> (k = 0 \<or> 1024 ^ k \<le> n))"
    by (rule conjunct1)
  with h show ?thesis by blast
qed

text \<open>
  At \<open>1024 ^ 5\<close> bytes the rule of the claim fails: the string is \<open>1024.00TiB\<close>, and no
  unit of the list makes the scaled value less than 1 after one more division.
\<close>

theorem bytes_humanize_unit_counterexample:
  "bytes_humanize (1024 ^ 5) = Inr ''1024.00TiB'' \<and>
   \<not> (\<exists>k. shown_in_unit (1024 ^ 5) k ''1024.00TiB'')"
proof
  show "bytes_humanize (1024 ^ 5) = Inr ''1024.00TiB''" by code_simp
  show "\<not> (\<exists>k. shown_in_unit (1024 ^ 5) k ''1024.00TiB'')"
  proof
    assume "\<exists>k. shown_in_unit (1024 ^ 5) k ''1024.00TiB''"
    then obtain k where "shown_in_unit (1024 ^ 5) k ''1024.00TiB''" ..
    then have k: "k < length prefixes" "of_int (1024 ^ 5) / 1024 ^ k / 1024 < (1::rat)"
      unfolding shown_in_unit_def by blast+
    from k(1) have "k < 5" by (simp add: prefixes_def)
    then consider "k = 0" | "k = 1" | "k = 2" | "k = 3" | "k = 4" by linarith
    then show False using k(2) by cases simp_all
  qed
qed

text \<open>
  Claim C9, within the range of a double. For every byte count \<open>n \<ge> 1024 ^ 4\<close>: when
  the double nearest to \<open>n\<close> is below \<open>2 ^ 1034\<close>, the formatter returns that double
  divided by \<open>1024 ^ 4\<close>, to two decimal places, followed by \<open>TiB\<close>, however large the
  number is; otherwise the first division raises \<^verbatim>\<open>OverflowError\<close>. The nearest double is
  \<open>n\<close> itself below \<open>2 ^ 53\<close>, and it is below \<open>2 ^ 1034\<close> for every \<open>n < 2 ^ 1024\<close>.
\<close>

theorem bytes_humanize_TiB:
  "1024 ^ 4 \<le> n \<Longrightarrow>
     (nearest_double n < 2 ^ 1034 \<longrightarrow>
        bytes_humanize n = Inr (format_02f (of_int (nearest_double n) / 1024 ^ 4) @ ''TiB''))
     \<and> (2 ^ 1034 \<le> nearest_double n \<longrightarrow> bytes_humanize n = Inl OverflowError)
     \<and> (n < 2 ^ 53 \<longrightarrow> nearest_double n = n)
     \<and> (n < 2 ^ 1024 \<longrightarrow> nearest_double n < 2 ^ 1034)"
proof (intro conjI impI)
  assume n: "1024 ^ 4 \<le> n"
  then have nn: "0 \<le> n" by simp
  have big: "1024 ^ 4 \<le> nearest_double n"
  proof (cases "n < 2 ^ 53")
    case True
    then show ?thesis using n by (simp add: nearest_double_small)
  next
    case False
    then have "2 ^ 53 \<le> nearest_double n" by (intro nearest_double_ge) simp
    then show ?thesis by simp
  qed
  {
    assume "nearest_double n < 2 ^ 1034"
    then have "int_truediv_1024 n = Inr (of_int (nearest_double n) / 1024)"
      using nn by (simp add: int_truediv_nonneg)
    then show "bytes_humanize n = Inr (format_02f (of_int (nearest_double n) / 1024 ^ 4) @ ''TiB'')"
      using big \<open>nearest_double n < 2 ^ 1034\<close> by (rule humanize_TiB)
  }
  {
    assume "2 ^ 1034 \<le> nearest_double n"
    then show "bytes_humanize n = Inl OverflowError"
      using nn by (simp add: bytes_humanize_def int_truediv_nonneg)
  }
  {
    assume "n < 2 ^ 53"
    then show "nearest_double n = n" by (rule nearest_double_small)
  }
  {
    assume "n < 2 ^ 1024"
    then have "nearest_double n \<le> 2 ^ 1024" by (rule nearest_double_le) simp
    then show "nearest_double n < 2 ^ 1034" by simp
  }
qed

text \<open>The saturation at \<open>1024 ^ 5\<close> bytes: 1024 TiB.\<close>

theorem bytes_humanize_TiB_witness:
  "(1024::int) ^ 4 \<le> 1024 ^ 5 \<and> nearest_double (1024 ^ 5) < 2 ^ 1034 \<and>
   bytes_humanize (1024 ^ 5) = Inr (format_02f (of_int (nearest_double (1024 ^ 5)) / 1024 ^ 4) @ ''TiB'') \<and>
   format_02f (of_int (nearest_double (1024 ^ 5)) / 1024 ^ 4) = ''1024.00''"
proof -
  have h: "(1024::int) ^ 4 \<le> 1024 ^ 5" by simp
  have d: "nearest_double (1024 ^ 5) < 2 ^ 1034" by (simp add: nearest_double_def)
  have f: "format_02f (of_int (nearest_double (1024 ^ 5)) / 1024 ^ 4) = ''1024.00''" by code_simp
  from bytes_humanize_TiB [OF h] d f h show ?thesis by blast
qed

text \<open>
  Two byte counts above \<open>1024 ^ 4\<close> where the claim as it stands fails. At \<open>2 ^ 1034\<close> no
  string is returned, since the division raises. At 9223372042352333946, a 64-bit value,
  the quotient by \<open>1024 ^ 4\<close> is 8388608.00 to two places, and the string returned says
  8388608.01: the integer was rounded to a double first.
\<close>

theorem bytes_humanize_TiB_counterexample:
  "(1024::int) ^ 4 \<le> 2 ^ 1034 \<and> bytes_humanize (2 ^ 1034) = Inl OverflowError \<and>
   (1024::int) ^ 4 \<le> 9223372042352333946 \<and>
   bytes_humanize 9223372042352333946 = Inr ''8388608.01TiB'' \<and>
   format_02f (of_int 9223372042352333946 / 1024 ^ 4) = ''8388608.00''"
proof (intro conjI)
  show "(1024::int) ^ 4 \<le> 2 ^ 1034" by simp
  show "bytes_humanize (2 ^ 1034) = Inl OverflowError" by code_simp
  show "(1024::int) ^ 4 \<le> 9223372042352333946" by simp
  show "bytes_humanize 9223372042352333946 = Inr ''8388608.01TiB''" by code_simp
  show "format_02f (of_int 9223372042352333946 / 1024 ^ 4) = ''8388608.00''" by code_simp
qed

section \<open>Sorting and printing\<close>

text \<open>
  Whatever algorithm sorts the list: a permutation of the input whose sizes are sorted and
  in which the packages of each size keep their order is the result of \<open>sort_packages\<close>.
\<close>

lemma stable_sort_unique:
  assumes "mset ys = mset ps"
    and "sorted (map size' ys)"
    and "\<And>k. filter (\<lambda>p. size' p = k) ys = filter (\<lambda>p. size' p = k) ps"
  shows "sort_packages ps = ys"
  unfolding sort_packages_def
proof (rule properties_for_sort_key)
  show "mset ys = mset ps" by (rule assms(1))
  show "sorted (map size' ys)" by (rule assms(2))
  fix q
  have eq: "(\<lambda>p. size' q = size' p) = (\<lambda>p. size' p = size' q)" by auto
  show "filter (\<lambda>p. size' q = size' p) ys = filter (\<lambda>p. size' q = size' p) ps"
    unfolding eq by (rule assms(3))
qed

lemma sum_list_sort_packages: "sum_list (map size' (sort_packages ps)) = sum_list (map size' ps)"
proof -
  have "mset (map size' (sort_packages ps)) = mset (map size' ps)"
    by (simp add: sort_packages_def)
  then show ?thesis by (metis sum_mset_sum_list)
qed

text \<open>
  Claim C2. For every list of packages, the sizes of the sorted list are non-decreasing:
  the list of sizes is sorted, and every size is at most the one that follows it.
\<close>

theorem sort_packages_nondecreasing:
  "sorted (map size' (sort_packages ps)) \<and> successively (\<le>) (map size' (sort_packages ps))"
proof -
  have s: "sorted (map size' (sort_packages ps))" by (simp add: sort_packages_def)
  then have "successively (\<le>) (map size' (sort_packages ps))"
    by (rule successively_if_sorted_wrt)
  with s show ?thesis ..
qed

text \<open>
  Claim C8. For every list of packages, the sorted list holds the same records with the
  same multiplicities as the input, and the packages of any one size stand in it in the
  order they have in the input.
\<close>

theorem sort_packages_stable_permutation:
  "mset (sort_packages ps) = mset ps \<and>
   (\<forall>k. filter (\<lambda>p. size' p = k) (sort_packages ps) = filter (\<lambda>p. size' p = k) ps)"
  by (simp add: sort_packages_def sort_key_stable)

lemma print_packages_raw:
  "print_packages False ps w =
     (w\<lparr>stdout := stdout w @ map (\<lambda>p. name p @ '' '' @ str (size' p)) ps\<rparr>, None)"
  by (induction ps arbitrary: w) (simp_all add: print_def)

lemma bytes_humanize_in_range:
  assumes "0 \<le> n" "n < 2 ^ 1024"
  shows "\<exists>s. bytes_humanize n = Inr s"
proof -
  from assms(2) have "nearest_double n \<le> 2 ^ 1024" by (rule nearest_double_le) simp
  then have "\<not> 2 ^ 1034 \<le> nearest_double n" by simp
  then have "int_truediv_1024 n = Inr (of_int (nearest_double n) / 1024)"
    using assms(1) by (simp add: int_truediv_nonneg)
  then show ?thesis
    by (simp add: bytes_humanize_def split: prod.splits)
qed

lemma size_Package: "0 \<le> size' (Package c) \<and> size' (Package c) < 2 ^ 64"
  using uint_lt2p [of "pkg_isize c"] by (simp add: Package_def)

lemma print_packages_human:
  assumes "\<forall>p\<in>set ps. 0 \<le> size' p \<and> size' p < 2 ^ 64"
  shows "\<exists>texts. map (\<lambda>p. bytes_humanize (size' p)) ps = map Inr texts \<and>
     print_packages True ps w =
       (w\<lparr>stdout := stdout w @ map2 (\<lambda>p t. name p @ '' '' @ t) ps texts\<rparr>, None)"
  using assms
proof (induction ps arbitrary: w)
  case Nil
  then show ?case by simp
next
  case (Cons p ps)
  then have "0 \<le> size' p" "size' p < 2 ^ 1024"
    by (simp_all add: less_trans [of "size' p" "2 ^ 64" "2 ^ 1024"])
  then obtain t where t: "bytes_humanize (size' p) = Inr t"
    using bytes_humanize_in_range by blast
  from Cons.prems have "\<forall>p\<in>set ps. 0 \<le> size' p \<and> size' p < 2 ^ 64" by simp
  from Cons.IH [OF this, of "print (name p @ '' '' @ t) w"]
  obtain texts where "map (\<lambda>p. bytes_humanize (size' p)) ps = map Inr texts"
    "print_packages True ps (print (name p @ '' '' @ t) w) =
       (print (name p @ '' '' @ t) w
          \<lparr>stdout := stdout (print (name p @ '' '' @ t) w) @
             map2 (\<lambda>p t. name p @ '' '' @ t) ps texts\<rparr>, None)"
    by blast
  then have "map (\<lambda>p. bytes_humanize (size' p)) (p # ps) = map Inr (t # texts) \<and>
     print_packages True (p # ps) w =
       (w\<lparr>stdout := stdout w @ map2 (\<lambda>p t. name p @ '' '' @ t) (p # ps) (t # texts)\<rparr>, None)"
    using t by (simp add: print_def)
  then show ?case by blast
qed

lemma sum_sizes_bound:
  "0 \<le> sum_list (map size' (map Package cs)) \<and>
   sum_list (map size' (map Package cs)) \<le> int (length cs) * 2 ^ 64"
proof (induction cs)
  case Nil
  then show ?case by simp
next
  case (Cons c cs)
  with size_Package [of c] show ?case by (simp add: algebra_simps)
qed

text \<open>
  Claim C3. In total mode the text printed is made from the sum of the sizes of all
  packages of the list, by the expression that makes the size text of a line in
  per-package mode: \<^verbatim>\<open>str\<close> of the sum when human-readable is off, \<^verbatim>\<open>bytes_humanize\<close> of the
  sum when it is on, and exactly one line is printed; where the formatter raises, its
  exception leaves \<^verbatim>\<open>main\<close> and nothing is printed for that value. For the packages of a
  database with fewer than \<open>2 ^ 960\<close> entries the formatter returns a string for the sum.
\<close>

theorem total_is_sum:
  "sort_and_print human_readable True ps w =
     (case (if human_readable then bytes_humanize (sum_list (map size' ps))
            else Inr (str (sum_list (map size' ps)))) of
        Inl e \<Rightarrow> (w, Some e)
      | Inr s \<Rightarrow> (print s w, None))
   \<and> sort_and_print human_readable False [p] w =
     (case (if human_readable then bytes_humanize (size' p) else Inr (str (size' p))) of
        Inl e \<Rightarrow> (w, Some e)
      | Inr s \<Rightarrow> (print (name p @ '' '' @ s) w, None))
   \<and> (length cs < 2 ^ 960 \<longrightarrow>
        (\<exists>s. bytes_humanize (sum_list (map size' (map Package cs))) = Inr s))"
proof (intro conjI impI)
  show "sort_and_print human_readable True ps w =
     (case (if human_readable then bytes_humanize (sum_list (map size' ps))
            else Inr (str (sum_list (map size' ps)))) of
        Inl e \<Rightarrow> (w, Some e)
      | Inr s \<Rightarrow> (print s w, None))"
    by (simp add: sort_and_print_def sum_list_sort_packages)
  show "sort_and_print human_readable False [p] w =
     (case (if human_readable then bytes_humanize (size' p) else Inr (str (size' p))) of
        Inl e \<Rightarrow> (w, Some e)
      | Inr s \<Rightarrow> (print (name p @ '' '' @ s) w, None))"
    by (simp add: sort_and_print_def sort_packages_def split: sum.splits)
next
  assume "length cs < 2 ^ 960"
  then have "int (length cs) < 2 ^ 960" by (metis of_nat_less_numeral_power_cancel_iff)
  then have "int (length cs) * 2 ^ 64 < 2 ^ 960 * 2 ^ 64" by simp
  also have "(2::int) ^ 960 * 2 ^ 64 = 2 ^ 1024" by simp
  finally have "sum_list (map size' (map Package cs)) < 2 ^ 1024"
    using sum_sizes_bound [of cs] by linarith
  then show "\<exists>s. bytes_humanize (sum_list (map size' (map Package cs))) = Inr s"
    using sum_sizes_bound [of cs] by (intro bytes_humanize_in_range) auto
qed

text \<open>The sum of two packages has a humanized string.\<close>

theorem total_is_sum_witness:
  "length [\<lparr>pkg_name = ''zlib'', pkg_isize = 1536\<rparr>, \<lparr>pkg_name = ''bash'', pkg_isize = 9876543\<rparr>]
     < 2 ^ 960 \<and>
   (\<exists>s. bytes_humanize (sum_list (map size' (map Package
      [\<lparr>pkg_name = ''zlib'', pkg_isize = 1536\<rparr>, \<lparr>pkg_name = ''bash'', pkg_isize = 9876543\<rparr>]))) = Inr s)"
proof -
  have l: "length [\<lparr>pkg_name = ''zlib'', pkg_isize = 1536\<rparr>,
      \<lparr>pkg_name = ''bash'', pkg_isize = (9876543 :: 64 word)\<rparr>] < 2 ^ 960"
    by simp
  from total_is_sum [where cs = "[\<lparr>pkg_name = ''zlib'', pkg_isize = 1536\<rparr>,
      \<lparr>pkg_name = ''bash'', pkg_isize = 9876543\<rparr>]"] l
  show ?thesis by blast
qed

text \<open>
  Claim C7. With no package, per-package mode prints nothing, with the human-readable flag
  on or off; total mode prints the line \<open>0\<close> when the flag is off and the line \<open>0.00B\<close>
  when it is on.
\<close>

theorem empty_package_set:
  "sort_and_print human_readable False [] w = (w, None)
   \<and> sort_and_print False True [] w = (print ''0'' w, None)
   \<and> sort_and_print True True [] w = (print ''0.00B'' w, None)"
proof -
  have z: "str 0 = ''0''" by code_simp
  have h: "bytes_humanize 0 = Inr ''0.00B''" by code_simp
  show ?thesis by (simp add: sort_and_print_def sort_packages_def z h)
qed

text \<open>
  Claim C10. For every list of packages that the library returns, per-package mode prints
  one line per package of the sorted list, the package's name, a space and a size text,
  with the human-readable flag on as with the flag off: the same number of lines, the
  same name at the same position; only the size texts differ, the humanized size of the
  package with the flag on (the formatter returns one for each package), its decimal byte
  count with the flag off.
\<close>

theorem human_readable_keeps_lines:
  "\<exists>texts.
     map (\<lambda>p. bytes_humanize (size' p)) (sort_packages (map Package cs)) = map Inr texts \<and>
     length texts = length cs \<and>
     sort_and_print True False (map Package cs) w =
       (w\<lparr>stdout := stdout w @
            map2 (\<lambda>p t. name p @ '' '' @ t) (sort_packages (map Package cs)) texts\<rparr>, None) \<and>
     sort_and_print False False (map Package cs) w =
       (w\<lparr>stdout := stdout w @
            map (\<lambda>p. name p @ '' '' @ str (size' p)) (sort_packages (map Package cs))\<rparr>, None)"
proof -
  let ?ps = "sort_packages (map Package cs)"
  have "\<forall>p\<in>set ?ps. 0 \<le> size' p \<and> size' p < 2 ^ 64"
    using size_Package by (auto simp: sort_packages_def)
  from print_packages_human [OF this, of w]
  obtain texts where t: "map (\<lambda>p. bytes_humanize (size' p)) ?ps = map Inr texts"
    and p: "print_packages True ?ps w =
       (w\<lparr>stdout := stdout w @ map2 (\<lambda>p t. name p @ '' '' @ t) ?ps texts\<rparr>, None)"
    by blast
  from t have "length ?ps = length texts" by (rule map_eq_imp_length_eq)
  then have l: "length texts = length cs" by (simp add: sort_packages_def)
  have h: "sort_and_print True False (map Package cs) w =
       (w\<lparr>stdout := stdout w @ map2 (\<lambda>p t. name p @ '' '' @ t) ?ps texts\<rparr>, None)"
    using p by (simp add: sort_and_print_def)
  have r: "sort_and_print False False (map Package cs) w =
       (w\<lparr>stdout := stdout w @ map (\<lambda>p. name p @ '' '' @ str (size' p)) ?ps\<rparr>, None)"
    by (simp add: sort_and_print_def print_packages_raw)
  from t l h r show ?thesis by blast
qed

section \<open>The configuration\<close>

lemma optionxform_RootDir: "optionxform ''RootDir'' = ''rootdir''"
  by code_simp

lemma optionxform_DBPath: "optionxform ''DBPath'' = ''dbpath''"
  by code_simp

lemma optionxform_CacheDir: "optionxform ''CacheDir'' = ''cachedir''"
  by code_simp

lemma read_dict_defaults:
  "read_dict
     [(''options'',
       [(''RootDir'', ''/''), (''DBPath'', ''/var/lib/pacman''),
        (''CacheDir'', ''/var/cache/pacman/pkg'')])] ConfigParser =
   \<lparr>sections = [''options'' \<mapsto> default_options], defaults = Map.empty\<rparr>"
  by (simp add: read_dict_def ConfigParser_def default_options_def
      optionxform_RootDir optionxform_DBPath optionxform_CacheDir)

lemma set_options_other:
  "\<not> list_ex (\<lambda>(k, v). k = option) kvs \<Longrightarrow> set_options kvs opts option = opts option"
  by (induction kvs opts rule: set_options.induct) auto

lemma fold_read_section_keeps:
  assumes "\<not> file_sets sects sectname option" "sectname \<noteq> ''DEFAULT''"
    "sections cfg sectname = Some opts" "opts option = Some v"
  shows "\<exists>opts'. sections (fold read_section sects cfg) sectname = Some opts' \<and> opts' option = Some v"
  using assms
proof (induction sects arbitrary: cfg opts)
  case Nil
  then show ?case by simp
next
  case (Cons s sects)
  obtain sn kvs where s: "s = (sn, kvs)" by (cases s)
  from Cons.prems(1) have rest: "\<not> file_sets sects sectname option"
    and here: "sn = sectname \<longrightarrow> \<not> list_ex (\<lambda>(k, v). k = option) kvs"
    by (auto simp: file_sets_def s)
  have "\<exists>opts1. sections (read_section s cfg) sectname = Some opts1 \<and> opts1 option = Some v"
    using Cons.prems(2-4) here by (auto simp: s set_options_other)
  then obtain opts1 where "sections (read_section s cfg) sectname = Some opts1" "opts1 option = Some v"
    by blast
  from Cons.IH [OF rest Cons.prems(2) this] show ?case by simp
qed

lemma config_get_plain:
  assumes "sections cfg sectname = Some opts" "opts (optionxform option) = Some (Some v)"
    "CHR ''%'' \<notin> set v"
  shows "config_get interpolate cfg sectname option = Inr (Some v)"
  using assms by (simp add: config_get_def map_add_def)

text \<open>
  Claim C6. When the file cannot be opened, reading the configuration succeeds and the
  options \<^verbatim>\<open>RootDir\<close> and \<^verbatim>\<open>DBPath\<close> of the section \<^verbatim>\<open>options\<close> are \<open>/\<close> and
  \<open>/var/lib/pacman\<close>. When the file parses, reading succeeds, and each of the two
  options that the file does not set in \<^verbatim>\<open>options\<close> has its default. When the parser
  rejects the file, its error leaves \<^verbatim>\<open>read_pacman_config\<close>.
\<close>

theorem config_defaults:
  "(\<exists>cfg. read_pacman_config Unreadable = Inr cfg \<and>
      config_get interpolate cfg ''options'' ''RootDir'' = Inr (Some ''/'') \<and>
      config_get interpolate cfg ''options'' ''DBPath'' = Inr (Some ''/var/lib/pacman''))
   \<and> (\<exists>cfg. read_pacman_config (Parsed sects) = Inr cfg \<and>
      (\<not> file_sets sects ''options'' ''rootdir'' \<longrightarrow>
         config_get interpolate cfg ''options'' ''RootDir'' = Inr (Some ''/'')) \<and>
      (\<not> file_sets sects ''options'' ''dbpath'' \<longrightarrow>
         config_get interpolate cfg ''options'' ''DBPath'' = Inr (Some ''/var/lib/pacman'')))
   \<and> read_pacman_config Malformed = Inl ParsingError"
proof (intro conjI)
  let ?c0 = "\<lparr>sections = [''options'' \<mapsto> default_options], defaults = Map.empty\<rparr>"
  have c0: "sections ?c0 ''options'' = Some default_options" by simp
  have r0: "default_options ''rootdir'' = Some (Some ''/'')"
    and d0: "default_options ''dbpath'' = Some (Some ''/var/lib/pacman'')"
    by (simp_all add: default_options_def)
  have "read_pacman_config Unreadable = Inr ?c0"
    by (simp add: read_pacman_config_def config_read_def read_dict_defaults)
  moreover have "config_get interpolate ?c0 ''options'' ''RootDir'' = Inr (Some ''/'')"
    by (rule config_get_plain [OF c0]) (simp_all add: optionxform_RootDir r0)
  moreover have "config_get interpolate ?c0 ''options'' ''DBPath'' = Inr (Some ''/var/lib/pacman'')"
    by (rule config_get_plain [OF c0]) (simp_all add: optionxform_DBPath d0)
  ultimately show "\<exists>cfg. read_pacman_config Unreadable = Inr cfg \<and>
      config_get interpolate cfg ''options'' ''RootDir'' = Inr (Some ''/'') \<and>
      config_get interpolate cfg ''options'' ''DBPath'' = Inr (Some ''/var/lib/pacman'')"
    by blast
  let ?c = "fold read_section sects ?c0"
  have rd: "read_pacman_config (Parsed sects) = Inr ?c"
    by (simp add: read_pacman_config_def config_read_def read_dict_defaults)
  have root: "config_get interpolate ?c ''options'' ''RootDir'' = Inr (Some ''/'')"
    if "\<not> file_sets sects ''options'' ''rootdir''"
  proof -
    from fold_read_section_keeps [OF that _ c0 r0]
    obtain opts' where o: "sections ?c ''options'' = Some opts'"
      and v: "opts' ''rootdir'' = Some (Some ''/'')"
      by auto
    show ?thesis by (rule config_get_plain [OF o]) (simp_all add: optionxform_RootDir v)
  qed
  have dbp: "config_get interpolate ?c ''options'' ''DBPath'' = Inr (Some ''/var/lib/pacman'')"
    if "\<not> file_sets sects ''options'' ''dbpath''"
  proof -
    from fold_read_section_keeps [OF that _ c0 d0]
    obtain opts' where o: "sections ?c ''options'' = Some opts'"
      and v: "opts' ''dbpath'' = Some (Some ''/var/lib/pacman'')"
      by auto
    show ?thesis by (rule config_get_plain [OF o]) (simp_all add: optionxform_DBPath v)
  qed
  from rd root dbp show "\<exists>cfg. read_pacman_config (Parsed sects) = Inr cfg \<and>
      (\<not> file_sets sects ''options'' ''rootdir'' \<longrightarrow>
         config_get interpolate cfg ''options'' ''RootDir'' = Inr (Some ''/'')) \<and>
      (\<not> file_sets sects ''options'' ''dbpath'' \<longrightarrow>
         config_get interpolate cfg ''options'' ''DBPath'' = Inr (Some ''/var/lib/pacman''))"
    by blast
  show "read_pacman_config Malformed = Inl ParsingError"
    by (simp add: read_pacman_config_def config_read_def)
qed

text \<open>A file that sets neither path.\<close>

theorem config_defaults_witness:
  "\<not> file_sets plain_conf ''options'' ''rootdir'' \<and>
   \<not> file_sets plain_conf ''options'' ''dbpath'' \<and>
   (\<exists>cfg. read_pacman_config (Parsed plain_conf) = Inr cfg \<and>
      config_get Inr cfg ''options'' ''RootDir'' = Inr (Some ''/'') \<and>
      config_get Inr cfg ''options'' ''DBPath'' = Inr (Some ''/var/lib/pacman''))"
proof -
  have r: "\<not> file_sets plain_conf ''options'' ''rootdir''"
    and d: "\<not> file_sets plain_conf ''options'' ''dbpath''"
    by (simp_all add: file_sets_def plain_conf_def)
  from config_defaults [of Inr plain_conf] r d show ?thesis by blast
qed

section \<open>The database session\<close>

lemma calls_print_packages: "calls (fst (print_packages h ps w)) = calls w"
  by (induction ps arbitrary: w) (auto simp: print_def split: sum.splits)

lemma calls_sort_and_print: "calls (fst (sort_and_print h t ps w)) = calls w"
  by (simp add: sort_and_print_def Let_def calls_print_packages print_def split: sum.splits)

lemma snd_print_packages_raw: "snd (print_packages False ps w) = None"
  by (simp add: print_packages_raw)



text \<open>A run that gets two paths from the configuration.\<close>

lemma main_with_paths:
  assumes "read_pacman_config conf_file = Inr cfg"
    "config_get interpolate cfg ''options'' ''RootDir'' = Inr (Some r)"
    "config_get interpolate cfg ''options'' ''DBPath'' = Inr (Some d)"
  shows "main lib conf_file interpolate h t =
     (case sort_and_print h t
             (map Package (alpm_db_search lib (alpm_get_localdb lib (alpm_initialize lib r d)) ''.*''))
             \<lparr>stdout = [],
              calls = [Initialize r d, Get_localdb (alpm_initialize lib r d),
                       Db_search (alpm_get_localdb lib (alpm_initialize lib r d)) ''.*'']\<rparr> of
        (w, e) \<Rightarrow> (call (Release (alpm_initialize lib r d)) w, e))"
  using assms
  by (simp add: main_def ALPM_init_def search_db_def ALPM_del_def call_def Let_def
      split: prod.splits option.splits)

lemma calls_main_with_paths:
  assumes "read_pacman_config conf_file = Inr cfg"
    "config_get interpolate cfg ''options'' ''RootDir'' = Inr (Some r)"
    "config_get interpolate cfg ''options'' ''DBPath'' = Inr (Some d)"
  shows "calls (fst (main lib conf_file interpolate h t)) =
     [Initialize r d, Get_localdb (alpm_initialize lib r d),
      Db_search (alpm_get_localdb lib (alpm_initialize lib r d)) ''.*'',
      Release (alpm_initialize lib r d)]"
proof -
  let ?w = "\<lparr>stdout = [],
              calls = [Initialize r d, Get_localdb (alpm_initialize lib r d),
                       Db_search (alpm_get_localdb lib (alpm_initialize lib r d)) ''.*'']\<rparr>"
  let ?cs = "map Package (alpm_db_search lib (alpm_get_localdb lib (alpm_initialize lib r d)) ''.*'')"
  obtain w e where res: "sort_and_print h t ?cs ?w = (w, e)"
    by (cases "sort_and_print h t ?cs ?w")
  from calls_sort_and_print [of h t ?cs ?w] res have "calls w = calls ?w" by simp
  then show ?thesis
    unfolding main_with_paths [OF assms] res by (simp add: call_def)
qed

lemma snd_main_with_paths:
  assumes "read_pacman_config conf_file = Inr cfg"
    "config_get interpolate cfg ''options'' ''RootDir'' = Inr (Some r)"
    "config_get interpolate cfg ''options'' ''DBPath'' = Inr (Some d)"
  shows "snd (main lib conf_file interpolate h t) =
     snd (sort_and_print h t
             (map Package (alpm_db_search lib (alpm_get_localdb lib (alpm_initialize lib r d)) ''.*''))
             \<lparr>stdout = [],
              calls = [Initialize r d, Get_localdb (alpm_initialize lib r d),
                       Db_search (alpm_get_localdb lib (alpm_initialize lib r d)) ''.*'']\<rparr>)"
  unfolding main_with_paths [OF assms] by (simp split: prod.splits)

lemma main_without_paths:
  "(read_pacman_config conf_file = Inl e \<longrightarrow>
      main lib conf_file interpolate h t = (\<lparr>stdout = [], calls = []\<rparr>, Some e))
   \<and> (read_pacman_config conf_file = Inr cfg \<and>
        config_get interpolate cfg ''options'' ''RootDir'' = Inl e \<longrightarrow>
      main lib conf_file interpolate h t = (\<lparr>stdout = [], calls = []\<rparr>, Some e))
   \<and> (read_pacman_config conf_file = Inr cfg \<and>
        config_get interpolate cfg ''options'' ''RootDir'' = Inr rv \<and>
        config_get interpolate cfg ''options'' ''DBPath'' = Inl e \<longrightarrow>
      main lib conf_file interpolate h t = (\<lparr>stdout = [], calls = []\<rparr>, Some e))
   \<and> (read_pacman_config conf_file = Inr cfg \<and>
        config_get interpolate cfg ''options'' ''RootDir'' = Inr rv \<and>
        config_get interpolate cfg ''options'' ''DBPath'' = Inr dv \<and> (rv = None \<or> dv = None) \<longrightarrow>
      main lib conf_file interpolate h t = (\<lparr>stdout = [], calls = []\<rparr>, Some AttributeError))"
  by (auto simp: main_def ALPM_init_def Let_def split: sum.splits option.splits)

text \<open>The configuration of a run whose file cannot be opened.\<close>

lemma unreadable_conf_read:
  "\<exists>cfg. read_pacman_config Unreadable = Inr cfg \<and>
     config_get Inr cfg ''options'' ''RootDir'' = Inr (Some ''/'') \<and>
     config_get Inr cfg ''options'' ''DBPath'' = Inr (Some ''/var/lib/pacman'')"
proof -
  let ?c0 = "\<lparr>sections = [''options'' \<mapsto> default_options], defaults = Map.empty\<rparr>"
  have "read_pacman_config Unreadable = Inr ?c0"
    by (simp add: read_pacman_config_def config_read_def read_dict_defaults)
  moreover have "config_get Inr ?c0 ''options'' ''RootDir'' = Inr (Some ''/'')"
    by (simp add: config_get_def default_options_def optionxform_RootDir map_add_def)
  moreover have "config_get Inr ?c0 ''options'' ''DBPath'' = Inr (Some ''/var/lib/pacman'')"
    by (simp add: config_get_def default_options_def optionxform_DBPath map_add_def)
  ultimately show ?thesis by blast
qed

text \<open>
  The packages of \<open>huge_lib\<close> add up to \<open>2 ^ 1034\<close> bytes, and total mode with humanized
  sizes ends with the formatter's exception.
\<close>

lemma huge_sum:
  "sum_list (map size' (map Package
     (replicate huge_count \<lparr>pkg_name = ''big'', pkg_isize = 9223372036854775808\<rparr>))) = 2 ^ 1034"
proof -
  have s: "size' (Package \<lparr>pkg_name = ''big'', pkg_isize = 9223372036854775808\<rparr>) = 2 ^ 63"
    by (simp add: Package_def)
  have "int huge_count = 2 ^ 971" by (simp add: huge_count_def)
  then have "int huge_count * 2 ^ 63 = 2 ^ 971 * 2 ^ 63" by (simp only:)
  also have "\<dots> = (2::int) ^ 1034" by simp
  finally show ?thesis by (simp only: map_replicate sum_list_replicate s)
qed

lemma huge_total_overflows:
  "sort_and_print True True
     (map Package (replicate huge_count \<lparr>pkg_name = ''big'', pkg_isize = 9223372036854775808\<rparr>)) w =
   (w, Some OverflowError)"
proof -
  have o: "bytes_humanize (2 ^ 1034) = Inl OverflowError" by code_simp
  show ?thesis
    by (simp only: sort_and_print_def Let_def sum_list_sort_packages huge_sum o if_True sum.case)
qed





text \<open>
  Claim C5, as the script behaves. A run that reaches the session constructor, one whose
  configuration was read and gives both paths, makes exactly four calls to the library,
  whether \<^verbatim>\<open>main\<close> returns or an exception leaves it: \<^verbatim>\<open>alpm_initialize\<close> once, the two
  queries, and \<^verbatim>\<open>alpm_release\<close> once, last, on the handle that \<^verbatim>\<open>alpm_initialize\<close> returned.
  Every other run makes no call at all and ends with an exception: the handle is not
  acquired and nothing is released; such is every run on which reading the configuration
  fails. So on every run the handle is released as often as it is acquired, and at most
  once.
\<close>

theorem handle_acquired_and_released:
  "(\<forall>cfg r d.
      read_pacman_config conf_file = Inr cfg \<and>
      config_get interpolate cfg ''options'' ''RootDir'' = Inr (Some r) \<and>
      config_get interpolate cfg ''options'' ''DBPath'' = Inr (Some d) \<longrightarrow>
      calls (fst (main lib conf_file interpolate human_readable show_total)) =
        [Initialize r d, Get_localdb (alpm_initialize lib r d),
         Db_search (alpm_get_localdb lib (alpm_initialize lib r d)) ''.*'',
         Release (alpm_initialize lib r d)])
   \<and> (case main lib conf_file interpolate human_readable show_total of
        (w, e) \<Rightarrow>
          (calls w = [] \<and> e \<noteq> None \<or>
           (\<exists>r d. calls w =
              [Initialize r d, Get_localdb (alpm_initialize lib r d),
               Db_search (alpm_get_localdb lib (alpm_initialize lib r d)) ''.*'',
               Release (alpm_initialize lib r d)])) \<and>
          length (filter is_release (calls w)) = length (filter is_initialize (calls w)) \<and>
          length (filter is_initialize (calls w)) \<le> 1)
   \<and> (\<forall>e. read_pacman_config conf_file = Inl e \<longrightarrow>
         main lib conf_file interpolate human_readable show_total =
           (\<lparr>stdout = [], calls = []\<rparr>, Some e))"
proof (intro conjI allI impI)
  fix cfg r d
  assume "read_pacman_config conf_file = Inr cfg \<and>
      config_get interpolate cfg ''options'' ''RootDir'' = Inr (Some r) \<and>
      config_get interpolate cfg ''options'' ''DBPath'' = Inr (Some d)"
  then show "calls (fst (main lib conf_file interpolate human_readable show_total)) =
        [Initialize r d, Get_localdb (alpm_initialize lib r d),
         Db_search (alpm_get_localdb lib (alpm_initialize lib r d)) ''.*'',
         Release (alpm_initialize lib r d)]"
    by (intro calls_main_with_paths) auto
next
  fix e
  assume "read_pacman_config conf_file = Inl e"
  then show "main lib conf_file interpolate human_readable show_total =
           (\<lparr>stdout = [], calls = []\<rparr>, Some e)"
    using main_without_paths [where conf_file = conf_file and lib = lib and e = e] by blast
next
  let ?P = "\<lambda>(w, e).
          (calls w = [] \<and> e \<noteq> None \<or>
           (\<exists>r d. calls w =
              [Initialize r d, Get_localdb (alpm_initialize lib r d),
               Db_search (alpm_get_localdb lib (alpm_initialize lib r d)) ''.*'',
               Release (alpm_initialize lib r d)])) \<and>
          length (filter is_release (calls w)) = length (filter is_initialize (calls w)) \<and>
          length (filter is_initialize (calls w)) \<le> 1"
  let ?m = "main lib conf_file interpolate human_readable show_total"
  have early: "?P (\<lparr>stdout = [], calls = []\<rparr>, Some e)" for e
    by simp
  show "?P ?m"
  proof (cases "read_pacman_config conf_file")
    case (Inl e)
    with main_without_paths [where conf_file = conf_file and e = e and lib = lib]
    show ?thesis using early by simp
  next
    case cfg: (Inr cfg)
    show ?thesis
    proof (cases "config_get interpolate cfg ''options'' ''RootDir''")
      case (Inl e)
      with cfg main_without_paths [where conf_file = conf_file and e = e and lib = lib and cfg = cfg]
      show ?thesis using early by simp
    next
      case rv: (Inr rv)
      show ?thesis
      proof (cases "config_get interpolate cfg ''options'' ''DBPath''")
        case (Inl e)
        with cfg rv
          main_without_paths [where conf_file = conf_file and e = e and lib = lib and cfg = cfg and rv = rv]
        show ?thesis using early by simp
      next
        case dv: (Inr dv)
        show ?thesis
        proof (cases "rv = None \<or> dv = None")
          case True
          with cfg rv dv
            main_without_paths [where conf_file = conf_file and lib = lib and cfg = cfg and rv = rv and dv = dv]
          show ?thesis using early by simp
        next
          case False
          then obtain r d where "rv = Some r" "dv = Some d" by auto
          with cfg rv dv have
            "calls (fst ?m) =
               [Initialize r d, Get_localdb (alpm_initialize lib r d),
                Db_search (alpm_get_localdb lib (alpm_initialize lib r d)) ''.*'',
                Release (alpm_initialize lib r d)]"
            by (intro calls_main_with_paths) auto
          then show ?thesis by (cases ?m) auto
        qed
      qed
    qed
  qed
qed

text \<open>
  A run that returns, a run that the formatter's exception ends after the session was
  made, both with the handle released once, and a run on a file that the parser rejects.
\<close>

theorem handle_acquired_and_released_witness:
  "(\<exists>cfg. read_pacman_config Unreadable = Inr cfg \<and>
      config_get Inr cfg ''options'' ''RootDir'' = Inr (Some ''/'') \<and>
      config_get Inr cfg ''options'' ''DBPath'' = Inr (Some ''/var/lib/pacman'')) \<and>
   snd (main small_lib Unreadable Inr True False) = None \<and>
   calls (fst (main small_lib Unreadable Inr True False)) =
     [Initialize ''/'' ''/var/lib/pacman'', Get_localdb 4096, Db_search 4160 ''.*'', Release 4096] \<and>
   snd (main huge_lib Unreadable Inr True True) = Some OverflowError \<and>
   calls (fst (main huge_lib Unreadable Inr True True)) =
     [Initialize ''/'' ''/var/lib/pacman'', Get_localdb 4096, Db_search 4160 ''.*'', Release 4096] \<and>
   read_pacman_config Malformed = Inl ParsingError \<and>
   main small_lib Malformed Inr True False = (\<lparr>stdout = [], calls = []\<rparr>, Some ParsingError)"
proof -
  from unreadable_conf_read obtain cfg where
    c: "read_pacman_config Unreadable = Inr cfg"
    and r: "config_get Inr cfg ''options'' ''RootDir'' = Inr (Some ''/'')"
    and d: "config_get Inr cfg ''options'' ''DBPath'' = Inr (Some ''/var/lib/pacman'')"
    by blast
  have n: "snd (main small_lib Unreadable Inr True False) = None" by code_simp
  have p: "read_pacman_config Malformed = Inl ParsingError"
    by (simp add: read_pacman_config_def config_read_def)
  have vs: "alpm_initialize small_lib ''/'' ''/var/lib/pacman'' = 4096"
    "alpm_get_localdb small_lib 4096 = 4160"
    by (simp_all add: small_lib_def NULL_def)
  have vh: "alpm_initialize huge_lib ''/'' ''/var/lib/pacman'' = 4096"
    "alpm_get_localdb huge_lib 4096 = 4160"
    by (simp_all add: huge_lib_def NULL_def)
  have hs: "alpm_db_search huge_lib 4160 ''.*'' =
      replicate huge_count \<lparr>pkg_name = ''big'', pkg_isize = 9223372036854775808\<rparr>"
    by (simp add: huge_lib_def NULL_def)
  have o: "snd (main huge_lib Unreadable Inr True True) = Some OverflowError"
    unfolding snd_main_with_paths [OF c r d] vh hs huge_total_overflows by simp
  from handle_acquired_and_released [of Unreadable Inr small_lib True False] c r d
  have "calls (fst (main small_lib Unreadable Inr True False)) =
     [Initialize ''/'' ''/var/lib/pacman'',
      Get_localdb (alpm_initialize small_lib ''/'' ''/var/lib/pacman''),
      Db_search (alpm_get_localdb small_lib (alpm_initialize small_lib ''/'' ''/var/lib/pacman'')) ''.*'',
      Release (alpm_initialize small_lib ''/'' ''/var/lib/pacman'')]"
    by blast
  then have cs: "calls (fst (main small_lib Unreadable Inr True False)) =
     [Initialize ''/'' ''/var/lib/pacman'', Get_localdb 4096, Db_search 4160 ''.*'', Release 4096]"
    by (simp only: vs)
  from handle_acquired_and_released [of Unreadable Inr huge_lib True True] c r d
  have "calls (fst (main huge_lib Unreadable Inr True True)) =
     [Initialize ''/'' ''/var/lib/pacman'',
      Get_localdb (alpm_initialize huge_lib ''/'' ''/var/lib/pacman''),
      Db_search (alpm_get_localdb huge_lib (alpm_initialize huge_lib ''/'' ''/var/lib/pacman'')) ''.*'',
      Release (alpm_initialize huge_lib ''/'' ''/var/lib/pacman'')]"
    by blast
  then have ch: "calls (fst (main huge_lib Unreadable Inr True True)) =
     [Initialize ''/'' ''/var/lib/pacman'', Get_localdb 4096, Db_search 4160 ''.*'', Release 4096]"
    by (simp only: vh)
  from handle_acquired_and_released [of Malformed Inr small_lib True False] p
  have m: "main small_lib Malformed Inr True False = (\<lparr>stdout = [], calls = []\<rparr>, Some ParsingError)"
    by blast
  from unreadable_conf_read n cs o ch p m show ?thesis by blast
qed

text \<open>
  A run on which the handle is never acquired: the parser rejects the file, and \<^verbatim>\<open>main\<close>
  ends with the parser's error before the session is made.
\<close>

theorem handle_acquired_and_released_counterexample:
  "snd (main small_lib Malformed Inr False False) = Some ParsingError \<and>
   length (filter is_initialize (calls (fst (main small_lib Malformed Inr False False)))) = 0 \<and>
   length (filter is_release (calls (fst (main small_lib Malformed Inr False False)))) = 0"
  by code_simp

end
